theory Spec2Isabelle
  imports Complex_Main "HOL-Library.Sublist"
begin

section \<open>Sliding-window request counting in the FastAPI examples\<close>

text \<open>
  Two functions of the repository count requests per key in a trailing window:
  \<^item> \<open>RateLimitMiddleware.dispatch\<close> in \<open>skills/fastapi/examples/middleware_examples.py\<close>,
  \<^item> \<open>rate_limit\<close> in \<open>skills/fastapi/examples/auth_dependencies.py\<close>.

  Both keep a \<open>defaultdict(list)\<close> from a key to the list of arrival times of the
  admitted requests. Arrival times are the values of \<open>time.time()\<close>; they are modelled as
  \<open>real\<close> numbers, the clock reading being an argument of each call. The functions only
  compare times and subtract the window length from them; the model takes the subtraction
  as exact (in binary floating point it is exact whenever \<open>now\<close> and \<open>now - 60\<close> have the
  same exponent, as the Unix times of the years 2004 to 2038 do).
\<close>

subsection \<open>Requests, users, responses\<close>

record address =
  host :: string
  port :: int

record request =
  client :: "address option"
  url_path :: string

datatype UserRole = USER | ADMIN | MODERATOR

text \<open>The field \<open>id\<close> of \<open>User\<close> is \<open>user_id\<close> here.\<close>

record user =
  user_id :: int
  username :: string
  email :: string
  is_active :: bool
  role :: UserRole
  scopes :: "string list"

text \<open>
  \<open>JSONResponse(status_code, content, headers)\<close> and
  \<open>HTTPException(status_code, detail, headers)\<close>; \<open>AttributeError\<close> is what
  \<open>request.client.host\<close> raises when \<open>request.client\<close> is \<open>None\<close>.
\<close>

datatype response = JSONResponse nat "(string \<times> string) list" "(string \<times> string) list"

datatype error =
    HTTPException nat string "(string \<times> string) list"
  | AttributeError

definition HTTP_429_TOO_MANY_REQUESTS :: nat where
  "HTTP_429_TOO_MANY_REQUESTS = 429"

subsection \<open>The store of arrival times\<close>

type_synonym counts = "string \<rightharpoonup> real list"

text \<open>
  Reading \<open>request_counts[key]\<close> of a \<open>defaultdict(list)\<close>: a missing key reads as the
  empty list. (The read also stores the empty list under the key; every read of a possibly
  missing key in the two functions is followed by an assignment to the same key, which the
  model performs.)
\<close>

definition getitem :: "counts \<Rightarrow> string \<Rightarrow> real list" where
  "getitem d key = (case d key of None \<Rightarrow> [] | Some ts \<Rightarrow> ts)"

subsection \<open>Python's \<open>str\<close> on integers\<close>

fun str_nat :: "nat \<Rightarrow> string" where
  "str_nat n =
     (if n < 10 then [''0123456789'' ! n]
      else str_nat (n div 10) @ [''0123456789'' ! (n mod 10)])"

declare str_nat.simps [simp del]

definition str_int :: "int \<Rightarrow> string" where
  "str_int i = (if i < 0 then CHR ''-'' # str_nat (nat (- i)) else str_nat (nat i))"

subsection \<open>\<open>rate_limit\<close> (auth\_dependencies.py)\<close>

text \<open>
  The module-level names \<open>RATE_LIMIT\<close> and \<open>RATE_WINDOW\<close> are read when
  \<open>rate_limit\<close> runs. \<open>rate_limit_with\<close> takes their values as its first two arguments,
  the clock reading \<open>now\<close> and the module-level \<open>request_counts\<close> as further arguments,
  and returns the outcome together with the updated \<open>request_counts\<close> (an exception
  leaves the store as it was when it was raised). \<open>rate_limit\<close> is the function at the
  values the module assigns.
\<close>

definition RATE_LIMIT :: int where
  "RATE_LIMIT = 100"

definition RATE_WINDOW :: int where
  "RATE_WINDOW = 60"

text \<open>
  The first statement of \<open>rate_limit\<close>: the key and the cap. A \<open>User\<close> object is
  truthy, so \<open>if current_user\<close> tests for \<open>None\<close>.
\<close>

definition key_and_limit :: "int \<Rightarrow> request \<Rightarrow> user option \<Rightarrow> error + (string \<times> int)" where
  "key_and_limit rate_limit_value request current_user =
     (case current_user of
        Some u \<Rightarrow> Inr (''user:'' @ str_int (user_id u), rate_limit_value * 2)
      | None \<Rightarrow>
          (case client request of
             None \<Rightarrow> Inl AttributeError
           | Some c \<Rightarrow> Inr (''ip:'' @ host c, rate_limit_value)))"

definition rate_limit_with ::
  "int \<Rightarrow> int \<Rightarrow> request \<Rightarrow> user option \<Rightarrow> real \<Rightarrow> counts \<Rightarrow> (error + unit) \<times> counts" where
  "rate_limit_with rate_limit_value rate_window request current_user now request_counts =
     (case key_and_limit rate_limit_value request current_user of
        Inl e \<Rightarrow> (Inl e, request_counts)
      | Inr (key, limit) \<Rightarrow>
          (let window_start = now - real_of_int rate_window;
               cleaned = request_counts(key \<mapsto> [t \<leftarrow> getitem request_counts key. t > window_start])
           in if int (length (getitem cleaned key)) \<ge> limit
              then (Inl (HTTPException HTTP_429_TOO_MANY_REQUESTS ''Rate limit exceeded''
                           [(''Retry-After'', str_int rate_window)]),
                    cleaned)
              else (Inr (), cleaned(key \<mapsto> getitem cleaned key @ [now]))))"

definition rate_limit :: "request \<Rightarrow> user option \<Rightarrow> real \<Rightarrow> counts \<Rightarrow> (error + unit) \<times> counts" where
  "rate_limit = rate_limit_with RATE_LIMIT RATE_WINDOW"

subsection \<open>\<open>RateLimitMiddleware\<close> (middleware\_examples.py)\<close>

text \<open>
  The fields of the middleware object. The wrapped application and the
  \<open>asyncio.Lock\<close> are not fields of the model: calls are taken one after the other, each
  running from its first statement to its return.
\<close>

record middleware =
  requests_per_minute :: int
  exclude_paths :: "string list"
  request_counts :: counts

text \<open>
  \<open>__init__(app, requests_per_minute=60, exclude_paths=None)\<close>; an argument left out
  is \<open>None\<close> here. \<open>exclude_paths or [...]\<close> takes the default for \<open>None\<close> and for
  the empty list.
\<close>

definition init :: "int option \<Rightarrow> string list option \<Rightarrow> middleware" where
  "init requests_per_minute_arg exclude_paths_arg =
     \<lparr> requests_per_minute = (case requests_per_minute_arg of None \<Rightarrow> 60 | Some n \<Rightarrow> n),
       exclude_paths =
         (case exclude_paths_arg of
            None \<Rightarrow> [''/health'', ''/docs'', ''/openapi.json'']
          | Some ps \<Rightarrow> if ps = [] then [''/health'', ''/docs'', ''/openapi.json''] else ps),
       request_counts = Map.empty \<rparr>"

text \<open>
  \<open>dispatch\<close> either returns \<open>await call_next(request)\<close> or returns the 429 response
  itself; the result says which, and carries the request handed on or the response.
\<close>

datatype dispatch_result = CallNext request | Return response

definition client_ip_of :: "request \<Rightarrow> string" where
  "client_ip_of request = (case client request of Some c \<Rightarrow> host c | None \<Rightarrow> ''unknown'')"

definition dispatch :: "middleware \<Rightarrow> request \<Rightarrow> real \<Rightarrow> dispatch_result \<times> middleware" where
  "dispatch self request now =
     (if url_path request \<in> set (exclude_paths self) then (CallNext request, self)
      else
        (let client_ip = client_ip_of request;
             window_start = now - 60;
             cleaned = (request_counts self)
                         (client_ip \<mapsto> [t \<leftarrow> getitem (request_counts self) client_ip. t > window_start])
         in if int (length (getitem cleaned client_ip)) \<ge> requests_per_minute self
            then (Return (JSONResponse HTTP_429_TOO_MANY_REQUESTS
                            [(''detail'', ''Rate limit exceeded. Try again later.'')]
                            [(''Retry-After'', ''60'')]),
                  self\<lparr>request_counts := cleaned\<rparr>)
            else (CallNext request,
                  self\<lparr>request_counts := cleaned(client_ip \<mapsto> getitem cleaned client_ip @ [now])\<rparr>)))"

subsection \<open>Sequences of calls\<close>

text \<open>
  A sequence of requests served one after the other, each with its clock reading; the
  results are collected and the state is threaded through.
\<close>

fun dispatch_all :: "middleware \<Rightarrow> (request \<times> real) list \<Rightarrow> dispatch_result list \<times> middleware" where
  "dispatch_all self [] = ([], self)"
| "dispatch_all self ((request, now) # calls) =
     (let (r, self1) = dispatch self request now;
          (rs, self2) = dispatch_all self1 calls
      in (r # rs, self2))"

fun rate_limit_all ::
  "int \<Rightarrow> int \<Rightarrow> counts \<Rightarrow> (request \<times> user option \<times> real) list \<Rightarrow> (error + unit) list \<times> counts" where
  "rate_limit_all rl rw counts0 [] = ([], counts0)"
| "rate_limit_all rl rw counts0 ((request, current_user, now) # calls) =
     (let (r, counts1) = rate_limit_with rl rw request current_user now counts0;
          (rs, counts2) = rate_limit_all rl rw counts1 calls
      in (r # rs, counts2))"

declare dispatch_all.simps(2) [simp del] rate_limit_all.simps(2) [simp del]

subsection \<open>One record, seen alone\<close>

text \<open>
  What one call does to the list stored under its key, with cap \<open>limit\<close> and window
  length \<open>window\<close>: the purge, the comparison with the cap and the append. It is the part
  that \<open>rate_limit\<close> and \<open>dispatch\<close> have in common; the lemmas below show that each of them
  acts on the record of its key as \<open>window_check\<close> does. \<open>window_run\<close> applies it to the
  clock readings of a sequence of calls.
\<close>

definition window_check :: "int \<Rightarrow> real \<Rightarrow> real \<Rightarrow> real list \<Rightarrow> bool \<times> real list" where
  "window_check limit window now ts =
     (let kept = [t \<leftarrow> ts. t > now - window]
      in if int (length kept) \<ge> limit then (False, kept) else (True, kept @ [now]))"

fun window_run :: "int \<Rightarrow> real \<Rightarrow> real list \<Rightarrow> real list \<Rightarrow> real list" where
  "window_run limit window ts [] = ts"
| "window_run limit window ts (now # nows) =
     window_run limit window (snd (window_check limit window now ts)) nows"

text \<open>
  The clock readings that \<open>window_run\<close> admits, in the order of the calls: the history of
  admissions of the record, purged timestamps included.
\<close>

fun window_admitted :: "int \<Rightarrow> real \<Rightarrow> real list \<Rightarrow> real list \<Rightarrow> real list" where
  "window_admitted limit window ts [] = []"
| "window_admitted limit window ts (now # nows) =
     (if fst (window_check limit window now ts) then [now] else [])
       @ window_admitted limit window (snd (window_check limit window now ts)) nows"

text \<open>
  The clock readings of the calls of a sequence that reach the record of key \<open>k\<close>: for
  \<open>dispatch\<close> the calls whose path is not excluded and whose client address is \<open>k\<close>, for
  \<open>rate_limit\<close> the calls whose key is \<open>k\<close>. The key of a call to \<open>rate_limit\<close> does not
  depend on the cap; \<open>limit_of_key\<close> is the cap that goes with a key.
\<close>

definition times_for :: "middleware \<Rightarrow> string \<Rightarrow> (request \<times> real) list \<Rightarrow> real list" where
  "times_for self k calls =
     map snd [c \<leftarrow> calls. url_path (fst c) \<notin> set (exclude_paths self) \<and> client_ip_of (fst c) = k]"

definition call_key :: "request \<Rightarrow> user option \<Rightarrow> string option" where
  "call_key request current_user =
     (case key_and_limit 0 request current_user of Inl e \<Rightarrow> None | Inr (k, cap) \<Rightarrow> Some k)"

definition rl_times_for :: "string \<Rightarrow> (request \<times> user option \<times> real) list \<Rightarrow> real list" where
  "rl_times_for k calls =
     map (\<lambda>c. snd (snd c)) [c \<leftarrow> calls. call_key (fst c) (fst (snd c)) = Some k]"

definition limit_of_key :: "int \<Rightarrow> string \<Rightarrow> int" where
  "limit_of_key rl k = (if take 5 k = ''user:'' then rl * 2 else rl)"

text \<open>
  The arrival times of the admitted calls of a sequence for key \<open>k\<close>, read off the results:
  for \<open>dispatch\<close> the checked calls for \<open>k\<close> that were handed on, for \<open>rate_limit\<close> the calls
  with key \<open>k\<close> that returned without raising.
\<close>

definition admitted_times :: "middleware \<Rightarrow> string \<Rightarrow> (request \<times> real) list \<Rightarrow> real list" where
  "admitted_times self k calls =
     map (\<lambda>cr. snd (fst cr))
       [cr \<leftarrow> zip calls (fst (dispatch_all self calls)).
          url_path (fst (fst cr)) \<notin> set (exclude_paths self) \<and> client_ip_of (fst (fst cr)) = k
          \<and> snd cr = CallNext (fst (fst cr))]"

definition rl_admitted_times ::
  "int \<Rightarrow> int \<Rightarrow> counts \<Rightarrow> string \<Rightarrow> (request \<times> user option \<times> real) list \<Rightarrow> real list" where
  "rl_admitted_times rl rw c k calls =
     map (\<lambda>cr. snd (snd (fst cr)))
       [cr \<leftarrow> zip calls (fst (rate_limit_all rl rw c calls)).
          call_key (fst (fst cr)) (fst (snd (fst cr))) = Some k \<and> snd cr = Inr ()]"

subsection \<open>Sample inputs\<close>

definition example_request :: request where
  "example_request = \<lparr>client = Some \<lparr>host = ''10.0.0.1'', port = 5000\<rparr>, url_path = ''/search''\<rparr>"

definition example_user :: user where
  "example_user = \<lparr>user_id = 1, username = ''alice'', email = ''alice@example.com'',
                    is_active = True, role = USER, scopes = [''users:read'']\<rparr>"

section \<open>Properties\<close>

subsection \<open>The store and the sample inputs\<close>

lemma getitem_upd [simp]: "getitem (d(k \<mapsto> ts)) k' = (if k' = k then ts else getitem d k')"
  by (simp add: getitem_def)

lemma getitem_empty [simp]: "getitem Map.empty k = []"
  by (simp add: getitem_def)

lemma init_fields [simp]:
  "requests_per_minute (init (Some L) ex) = L"
  "requests_per_minute (init None ex) = 60"
  "request_counts (init a ex) = Map.empty"
  "exclude_paths (init a None) = [''/health'', ''/docs'', ''/openapi.json'']"
  by (simp_all add: init_def)

lemma example_simps [simp]:
  "client example_request = Some \<lparr>host = ''10.0.0.1'', port = 5000\<rparr>"
  "url_path example_request = ''/search''"
  "client_ip_of example_request = ''10.0.0.1''"
  "user_id example_user = 1"
  by (simp_all add: example_request_def example_user_def client_ip_of_def)

lemma str_int_1 [simp]: "str_int 1 = ''1''"
  by (simp add: str_int_def str_nat.simps)

lemma str_int_60 [simp]: "str_int 60 = ''60''"
  by (simp add: str_int_def str_nat.simps)

lemma example_call_key [simp]:
  "call_key example_request (Some example_user) = Some ''user:1''"
  "call_key example_request None = Some ''ip:10.0.0.1''"
  by (simp_all add: call_key_def key_and_limit_def)

lemma replicate_2: "replicate 2 x = [x, x]"
  by (simp add: numeral_2_eq_2)

subsection \<open>One check of one record\<close>

lemma window_check_eval:
  "window_check L W now ts =
     (if L \<le> int (length [t \<leftarrow> ts. t > now - W]) then (False, [t \<leftarrow> ts. t > now - W])
      else (True, [t \<leftarrow> ts. t > now - W] @ [now]))"
  by (simp add: window_check_def Let_def)

lemma window_check_snd:
  "snd (window_check L W now ts) =
     [t \<leftarrow> ts. t > now - W] @ (if fst (window_check L W now ts) then [now] else [])"
  by (simp add: window_check_def Let_def)

lemma window_check_fst:
  "fst (window_check L W now ts) \<longleftrightarrow> int (length [t \<leftarrow> ts. t > now - W]) < L"
  by (simp add: window_check_def Let_def)

lemma filter_length_int: "int (length xs) \<le> M \<Longrightarrow> int (length (filter P xs)) \<le> M"
  using length_filter_le [of P xs] by linarith

lemma window_check_length:
  "int (length ts) \<le> max 0 L \<Longrightarrow> int (length (snd (window_check L W now ts))) \<le> max 0 L"
proof -
  assume a: "int (length ts) \<le> max 0 L"
  have "length [t \<leftarrow> ts. t > now - W] \<le> length ts" by (rule length_filter_le)
  with a have "int (length [t \<leftarrow> ts. t > now - W]) \<le> max 0 L" by linarith
  then show ?thesis by (auto simp: window_check_def Let_def)
qed

lemma filter_same_length: "length (filter P xs) = length xs \<Longrightarrow> filter P xs = xs"
  by (metis filter_True length_filter_less linorder_neq_iff)

lemma window_check_rejected_same:
  assumes "int (length ts) \<le> max 0 L" and "\<not> fst (window_check L W now ts)"
  shows "snd (window_check L W now ts) = ts"
proof -
  let ?k = "[t \<leftarrow> ts. t > now - W]"
  have le: "length ?k \<le> length ts" by (rule length_filter_le)
  have ge: "L \<le> int (length ?k)" using assms(2) by (simp add: window_check_fst)
  have "length ?k = length ts"
  proof (cases "0 \<le> L")
    case True
    with assms(1) ge le show ?thesis by linarith
  next
    case False
    with assms(1) le show ?thesis by linarith
  qed
  then have "?k = ts" by (rule filter_same_length)
  with assms(2) show ?thesis by (simp add: window_check_snd)
qed

lemma window_check_recent:
  "0 < W \<Longrightarrow> \<forall>t \<in> set (snd (window_check L W now ts)). t > now - W"
  by (auto simp: window_check_snd)

lemma window_check_expired:
  assumes "\<forall>x \<in> set ts. x \<le> now - W" and "1 \<le> L"
  shows "window_check L W now ts = (True, [now])"
proof -
  have "[t \<leftarrow> ts. t > now - W] = []"
    using assms(1) by (auto simp: filter_empty_conv)
  with assms(2) show ?thesis by (simp add: window_check_def Let_def)
qed

lemma window_check_burst:
  assumes "0 < W" and "[x \<leftarrow> ts. x > t - W] = replicate m t" and "int m < L"
  shows "fst (window_check L W t ts)"
    and "[x \<leftarrow> snd (window_check L W t ts). x > t - W] = replicate (Suc m) t"
  using assms by (simp_all add: window_check_eval replicate_append_same)

lemma window_run_length:
  "int (length ts) \<le> max 0 L \<Longrightarrow> int (length (window_run L W ts nows)) \<le> max 0 L"
  by (induction nows arbitrary: ts) (simp_all add: window_check_length)

lemma window_check_subseq: "subseq (snd (window_check L W now ts)) (ts @ [now])"
  by (simp add: window_check_snd list_emb_append_mono)

lemma window_run_subseq: "subseq (window_run L W ts nows) (ts @ nows)"
proof (induction nows arbitrary: ts)
  case Nil
  show ?case by simp
next
  case (Cons now nows)
  have "subseq (window_run L W (snd (window_check L W now ts)) nows)
          (snd (window_check L W now ts) @ nows)"
    by (rule Cons.IH)
  moreover have "subseq (snd (window_check L W now ts) @ nows) ((ts @ [now]) @ nows)"
    by (rule list_emb_append_mono [OF window_check_subseq]) simp
  ultimately show ?case
    using subseq_order.order_trans by fastforce
qed

lemma subseq_sorted: "subseq xs ys \<Longrightarrow> sorted ys \<Longrightarrow> sorted xs"
  by (metis subseq_conv_nths sorted_nths)

subsection \<open>The history of admissions of one record\<close>

lemma window_run_snoc:
  "window_run L W ts (nows @ [now]) = snd (window_check L W now (window_run L W ts nows))"
  by (induction nows arbitrary: ts) simp_all

lemma window_admitted_snoc:
  "window_admitted L W ts (nows @ [now]) =
     window_admitted L W ts nows
       @ (if fst (window_check L W now (window_run L W ts nows)) then [now] else [])"
  by (induction nows arbitrary: ts) simp_all

lemma filter_filter_recent:
  "now \<le> m \<Longrightarrow> [x \<leftarrow> [x \<leftarrow> xs. x > now - W]. x > m - W] = [x \<leftarrow> xs. x > m - (W::real)]"
  by (induction xs) auto

lemma window_history:
  assumes "sorted nows"
  shows "(\<forall>m. (\<forall>n \<in> set nows. n \<le> m) \<longrightarrow>
            [x \<leftarrow> window_run L W [] nows. x > m - W] = [x \<leftarrow> window_admitted L W [] nows. x > m - W])
       \<and> (0 < L \<longrightarrow> (\<forall>t. int (length [x \<leftarrow> window_admitted L W [] nows. t - W < x \<and> x \<le> t]) \<le> L))"
  using assms
proof (induction nows rule: rev_induct)
  case Nil
  show ?case by simp
next
  case (snoc now nows)
  let ?R = "window_run L W [] nows"
  let ?A = "window_admitted L W [] nows"
  from snoc.prems have s: "sorted nows" and le: "\<forall>n \<in> set nows. n \<le> now"
    by (simp_all add: sorted_append)
  note IH = snoc.IH [OF s]
  have kept: "[x \<leftarrow> ?R. x > now - W] = [x \<leftarrow> ?A. x > now - W]"
    using IH le by blast
  show ?case
  proof (intro conjI allI impI)
    fix m
    assume "\<forall>n \<in> set (nows @ [now]). n \<le> m"
    then have m: "now \<le> m" and ms: "\<forall>n \<in> set nows. n \<le> m" by simp_all
    from IH ms have e: "[x \<leftarrow> ?R. x > m - W] = [x \<leftarrow> ?A. x > m - W]" by blast
    show "[x \<leftarrow> window_run L W [] (nows @ [now]). x > m - W]
            = [x \<leftarrow> window_admitted L W [] (nows @ [now]). x > m - W]"
      using e filter_filter_recent [OF m, where xs = ?R and W = W]
      by (simp add: window_run_snoc window_admitted_snoc window_check_snd)
  next
    fix t
    assume pos: "0 < L"
    with IH have old: "int (length [x \<leftarrow> ?A. t - W < x \<and> x \<le> t]) \<le> L" by blast
    show "int (length [x \<leftarrow> window_admitted L W [] (nows @ [now]). t - W < x \<and> x \<le> t]) \<le> L"
    proof (cases "fst (window_check L W now ?R) \<and> t - W < now \<and> now \<le> t")
      case False
      with old show ?thesis by (auto simp: window_admitted_snoc)
    next
      case True
      then have "int (length [x \<leftarrow> ?R. x > now - W]) < L" by (simp add: window_check_fst)
      then have small: "int (length [x \<leftarrow> ?A. x > now - W]) < L" by (simp only: kept)
      have "length [x \<leftarrow> ?A. t - W < x \<and> x \<le> t] \<le> length [x \<leftarrow> ?A. x > now - W]"
      proof -
        have "[x \<leftarrow> ?A. t - W < x \<and> x \<le> t] = [x \<leftarrow> [x \<leftarrow> ?A. x > now - W]. t - W < x \<and> x \<le> t]"
          using True by (auto intro: filter_cong)
        then show ?thesis by (metis length_filter_le)
      qed
      with small True show ?thesis by (simp add: window_admitted_snoc)
    qed
  qed
qed

subsection \<open>\<open>dispatch\<close> on the record of a key\<close>

lemma dispatch_excluded:
  "url_path request \<in> set (exclude_paths self) \<Longrightarrow> dispatch self request now = (CallNext request, self)"
  by (simp add: dispatch_def)

lemma dispatch_fields [simp]:
  "requests_per_minute (snd (dispatch self request now)) = requests_per_minute self"
  "exclude_paths (snd (dispatch self request now)) = exclude_paths self"
  by (simp_all add: dispatch_def Let_def)

lemma dispatch_record:
  "getitem (request_counts (snd (dispatch self request now))) k =
     (if url_path request \<notin> set (exclude_paths self) \<and> client_ip_of request = k
      then snd (window_check (requests_per_minute self) 60 now (getitem (request_counts self) k))
      else getitem (request_counts self) k)"
  by (simp add: dispatch_def window_check_def Let_def)

lemma dispatch_outcome:
  "url_path request \<notin> set (exclude_paths self) \<Longrightarrow>
   fst (dispatch self request now) =
     (if fst (window_check (requests_per_minute self) 60 now
                (getitem (request_counts self) (client_ip_of request)))
      then CallNext request
      else Return (JSONResponse HTTP_429_TOO_MANY_REQUESTS
                     [(''detail'', ''Rate limit exceeded. Try again later.'')]
                     [(''Retry-After'', ''60'')]))"
  by (simp add: dispatch_def window_check_def Let_def)

lemma dispatch_Return_iff:
  "fst (dispatch self request now) = Return resp \<Longrightarrow>
     url_path request \<notin> set (exclude_paths self)
     \<and> \<not> fst (window_check (requests_per_minute self) 60 now
               (getitem (request_counts self) (client_ip_of request)))"
  by (cases "url_path request \<in> set (exclude_paths self)")
     (auto simp: dispatch_excluded dispatch_outcome split: if_splits)

lemma dispatch_all_Cons:
  "dispatch_all self ((request, now) # calls) =
     (fst (dispatch self request now) # fst (dispatch_all (snd (dispatch self request now)) calls),
      snd (dispatch_all (snd (dispatch self request now)) calls))"
  by (simp add: dispatch_all.simps(2) split_beta)

lemma dispatch_all_fields [simp]:
  "requests_per_minute (snd (dispatch_all self calls)) = requests_per_minute self"
  "exclude_paths (snd (dispatch_all self calls)) = exclude_paths self"
proof (induction calls arbitrary: self)
  case Nil
  { case 1 show ?case by simp }
  { case 2 show ?case by simp }
next
  case (Cons c calls)
  { case 1 show ?case using Cons.IH(1) by (cases c) (simp only: dispatch_all_Cons snd_conv dispatch_fields) }
  { case 2 show ?case using Cons.IH(2) by (cases c) (simp only: dispatch_all_Cons snd_conv dispatch_fields) }
qed

lemma times_for_Cons:
  "times_for self k ((request, now) # calls) =
     (if url_path request \<notin> set (exclude_paths self) \<and> client_ip_of request = k
      then now # times_for self k calls else times_for self k calls)"
  by (simp add: times_for_def)

lemma times_for_fields:
  "exclude_paths self' = exclude_paths self \<Longrightarrow> times_for self' k calls = times_for self k calls"
  by (simp add: times_for_def)

lemma dispatch_all_record:
  "getitem (request_counts (snd (dispatch_all self calls))) k =
     window_run (requests_per_minute self) 60 (getitem (request_counts self) k) (times_for self k calls)"
proof (induction calls arbitrary: self)
  case Nil
  show ?case by (simp add: times_for_def)
next
  case (Cons c calls)
  obtain request now where c: "c = (request, now)" by (cases c)
  let ?s = "snd (dispatch self request now)"
  have t: "times_for ?s k calls = times_for self k calls"
    by (rule times_for_fields) simp
  have "getitem (request_counts (snd (dispatch_all ?s calls))) k =
        window_run (requests_per_minute self) 60 (getitem (request_counts ?s) k) (times_for self k calls)"
    using Cons.IH [of ?s] by (simp only: t dispatch_fields)
  then show ?case
    unfolding c dispatch_all_Cons snd_conv times_for_Cons dispatch_record
    by simp
qed

lemma admitted_times_Cons:
  "admitted_times self k ((request, now) # calls) =
     (if url_path request \<notin> set (exclude_paths self) \<and> client_ip_of request = k
         \<and> fst (dispatch self request now) = CallNext request
      then [now] else [])
       @ admitted_times (snd (dispatch self request now)) k calls"
  by (simp add: admitted_times_def dispatch_all_Cons)

lemma admitted_times_eq:
  "admitted_times self k calls =
     window_admitted (requests_per_minute self) 60 (getitem (request_counts self) k)
       (times_for self k calls)"
proof (induction calls arbitrary: self)
  case Nil
  show ?case by (simp add: admitted_times_def times_for_def)
next
  case (Cons c calls)
  obtain request now where c: "c = (request, now)" by (cases c)
  let ?s = "snd (dispatch self request now)"
  have t: "times_for ?s k calls = times_for self k calls"
    by (rule times_for_fields) simp
  have IH: "admitted_times ?s k calls =
        window_admitted (requests_per_minute self) 60 (getitem (request_counts ?s) k)
          (times_for self k calls)"
    using Cons.IH [of ?s] by (simp only: t dispatch_fields)
  show ?case
  proof (cases "url_path request \<notin> set (exclude_paths self) \<and> client_ip_of request = k")
    case True
    then show ?thesis
      unfolding c admitted_times_Cons IH times_for_Cons dispatch_record
      by (simp add: dispatch_outcome)
  next
    case False
    then show ?thesis
      unfolding c admitted_times_Cons IH times_for_Cons dispatch_record
      by auto
  qed
qed

lemma dispatch_burst:
  assumes "url_path request \<notin> set (exclude_paths self)"
    and "[x \<leftarrow> getitem (request_counts self) (client_ip_of request). x > t - 60] = replicate m t"
    and "int (m + n) \<le> requests_per_minute self"
  shows "fst (dispatch_all self (replicate n (request, t))) = replicate n (CallNext request)
       \<and> [x \<leftarrow> getitem (request_counts (snd (dispatch_all self (replicate n (request, t)))))
                  (client_ip_of request). x > t - 60] = replicate (m + n) t"
  using assms
proof (induction n arbitrary: self m)
  case 0
  then show ?case by simp
next
  case (Suc n)
  let ?s = "snd (dispatch self request t)"
  let ?ts = "getitem (request_counts self) (client_ip_of request)"
  have lt: "int m < requests_per_minute self" using Suc.prems(3) by simp
  have adm: "fst (window_check (requests_per_minute self) 60 t ?ts)"
    by (rule window_check_burst(1) [OF _ Suc.prems(2) lt]) simp
  have kept: "[x \<leftarrow> snd (window_check (requests_per_minute self) 60 t ?ts). x > t - 60]
                = replicate (Suc m) t"
    by (rule window_check_burst(2) [OF _ Suc.prems(2) lt]) simp
  have first: "fst (dispatch self request t) = CallNext request"
    using Suc.prems(1) adm by (simp add: dispatch_outcome)
  have ex: "url_path request \<notin> set (exclude_paths ?s)" using Suc.prems(1) by simp
  have rec: "[x \<leftarrow> getitem (request_counts ?s) (client_ip_of request). x > t - 60]
                = replicate (Suc m) t"
    using kept Suc.prems(1) by (simp add: dispatch_record)
  have le: "int (Suc m + n) \<le> requests_per_minute ?s" using Suc.prems(3) by simp
  from Suc.IH [OF ex rec le] first show ?case
    by (simp add: dispatch_all_Cons)
qed

subsection \<open>\<open>rate_limit\<close> on the record of a key\<close>

lemma limit_of_user_key [simp]:
  "limit_of_key rl (CHR ''u'' # CHR ''s'' # CHR ''e'' # CHR ''r'' # CHR '':'' # a) = rl * 2"
  by (simp add: limit_of_key_def)

lemma limit_of_ip_key [simp]:
  "limit_of_key rl (CHR ''i'' # CHR ''p'' # CHR '':'' # b) = rl"
  by (simp add: limit_of_key_def)

lemma key_and_limit_cases:
  "key_and_limit rl request u = Inr (k, cap) \<longleftrightarrow>
     (\<exists>usr. u = Some usr \<and> k = ''user:'' @ str_int (user_id usr) \<and> cap = rl * 2) \<or>
     (\<exists>a. u = None \<and> client request = Some a \<and> k = ''ip:'' @ host a \<and> cap = rl)"
  by (auto simp: key_and_limit_def split: option.splits)

lemma key_and_limit_Inr:
  assumes "key_and_limit rl request u = Inr (k, cap)"
  shows "cap = limit_of_key rl k" and "call_key request u = Some k"
proof -
  from assms show "cap = limit_of_key rl k"
    unfolding key_and_limit_cases by (elim disjE exE conjE) simp_all
  from assms have "key_and_limit 0 request u = Inr (k, if u = None then 0 else 0 * 2)"
    by (auto simp: key_and_limit_def split: option.splits)
  then show "call_key request u = Some k"
    by (simp add: call_key_def)
qed

lemma call_key_Some:
  "call_key request u = Some k \<Longrightarrow> key_and_limit rl request u = Inr (k, limit_of_key rl k)"
  by (auto simp: call_key_def key_and_limit_def split: option.splits)

lemma call_key_None:
  "call_key request u = None \<Longrightarrow> key_and_limit rl request u = Inl AttributeError"
  by (auto simp: call_key_def key_and_limit_def split: option.splits)

lemma rate_limit_with_no_key:
  "call_key request u = None \<Longrightarrow> rate_limit_with rl rw request u now c = (Inl AttributeError, c)"
  by (simp add: rate_limit_with_def call_key_None)

lemma rate_limit_with_record:
  "getitem (snd (rate_limit_with rl rw request u now c)) k =
     (if call_key request u = Some k
      then snd (window_check (limit_of_key rl k) (real_of_int rw) now (getitem c k))
      else getitem c k)"
proof (cases "call_key request u")
  case None
  then show ?thesis by (simp add: rate_limit_with_no_key)
next
  case (Some k')
  then show ?thesis
    by (simp add: rate_limit_with_def call_key_Some [OF Some] window_check_def Let_def)
qed

lemma rate_limit_with_outcome:
  "call_key request u = Some k \<Longrightarrow>
   fst (rate_limit_with rl rw request u now c) =
     (if fst (window_check (limit_of_key rl k) (real_of_int rw) now (getitem c k))
      then Inr ()
      else Inl (HTTPException HTTP_429_TOO_MANY_REQUESTS ''Rate limit exceeded''
                  [(''Retry-After'', str_int rw)]))"
  by (simp add: rate_limit_with_def call_key_Some window_check_def Let_def)

lemma rate_limit_with_Inl:
  "fst (rate_limit_with rl rw request u now c) = Inl e \<Longrightarrow> call_key request u = Some k \<Longrightarrow>
     \<not> fst (window_check (limit_of_key rl k) (real_of_int rw) now (getitem c k))"
  by (auto simp: rate_limit_with_outcome split: if_splits)

lemma rate_limit_all_Cons:
  "rate_limit_all rl rw c ((request, u, now) # calls) =
     (fst (rate_limit_with rl rw request u now c)
        # fst (rate_limit_all rl rw (snd (rate_limit_with rl rw request u now c)) calls),
      snd (rate_limit_all rl rw (snd (rate_limit_with rl rw request u now c)) calls))"
  by (simp add: rate_limit_all.simps(2) split_beta)

lemma rl_times_for_Cons:
  "rl_times_for k ((request, u, now) # calls) =
     (if call_key request u = Some k then now # rl_times_for k calls else rl_times_for k calls)"
  by (simp add: rl_times_for_def)

lemma rate_limit_all_record:
  "getitem (snd (rate_limit_all rl rw c calls)) k =
     window_run (limit_of_key rl k) (real_of_int rw) (getitem c k) (rl_times_for k calls)"
proof (induction calls arbitrary: c)
  case Nil
  show ?case by (simp add: rl_times_for_def)
next
  case (Cons call calls)
  obtain request u now where call: "call = (request, u, now)" by (cases call)
  let ?c = "snd (rate_limit_with rl rw request u now c)"
  have "getitem (snd (rate_limit_all rl rw ?c calls)) k =
        window_run (limit_of_key rl k) (real_of_int rw) (getitem ?c k) (rl_times_for k calls)"
    by (rule Cons.IH)
  then show ?case
    unfolding call rate_limit_all_Cons snd_conv rl_times_for_Cons rate_limit_with_record
    by simp
qed

lemma rl_admitted_times_Cons:
  "rl_admitted_times rl rw c k ((request, u, now) # calls) =
     (if call_key request u = Some k \<and> fst (rate_limit_with rl rw request u now c) = Inr ()
      then [now] else [])
       @ rl_admitted_times rl rw (snd (rate_limit_with rl rw request u now c)) k calls"
  by (simp add: rl_admitted_times_def rate_limit_all_Cons)

lemma rl_admitted_times_eq:
  "rl_admitted_times rl rw c k calls =
     window_admitted (limit_of_key rl k) (real_of_int rw) (getitem c k) (rl_times_for k calls)"
proof (induction calls arbitrary: c)
  case Nil
  show ?case by (simp add: rl_admitted_times_def rl_times_for_def)
next
  case (Cons call calls)
  obtain request u now where call: "call = (request, u, now)" by (cases call)
  let ?c = "snd (rate_limit_with rl rw request u now c)"
  have IH: "rl_admitted_times rl rw ?c k calls =
        window_admitted (limit_of_key rl k) (real_of_int rw) (getitem ?c k) (rl_times_for k calls)"
    by (rule Cons.IH)
  show ?case
  proof (cases "call_key request u = Some k")
    case True
    then show ?thesis
      unfolding call rl_admitted_times_Cons IH rl_times_for_Cons rate_limit_with_record
      by (simp add: rate_limit_with_outcome)
  next
    case False
    then show ?thesis
      unfolding call rl_admitted_times_Cons IH rl_times_for_Cons rate_limit_with_record
      by simp
  qed
qed

lemma rate_limit_burst:
  assumes "call_key request u = Some key" and "0 < rw"
    and "[x \<leftarrow> getitem c key. x > t - real_of_int rw] = replicate m t"
    and "int (m + n) \<le> limit_of_key rl key"
  shows "fst (rate_limit_all rl rw c (replicate n (request, u, t))) = replicate n (Inr ())
       \<and> [x \<leftarrow> getitem (snd (rate_limit_all rl rw c (replicate n (request, u, t)))) key.
              x > t - real_of_int rw] = replicate (m + n) t"
  using assms(3,4)
proof (induction n arbitrary: c m)
  case 0
  then show ?case by simp
next
  case (Suc n)
  let ?c = "snd (rate_limit_with rl rw request u t c)"
  have w: "0 < real_of_int rw" using assms(2) by simp
  have lt: "int m < limit_of_key rl key" using Suc.prems(2) by simp
  have adm: "fst (window_check (limit_of_key rl key) (real_of_int rw) t (getitem c key))"
    by (rule window_check_burst(1) [OF w Suc.prems(1) lt])
  have kept: "[x \<leftarrow> snd (window_check (limit_of_key rl key) (real_of_int rw) t (getitem c key)).
                 x > t - real_of_int rw] = replicate (Suc m) t"
    by (rule window_check_burst(2) [OF w Suc.prems(1) lt])
  have first: "fst (rate_limit_with rl rw request u t c) = Inr ()"
    using assms(1) adm by (simp add: rate_limit_with_outcome)
  have rec: "[x \<leftarrow> getitem ?c key. x > t - real_of_int rw] = replicate (Suc m) t"
    using kept assms(1) by (simp add: rate_limit_with_record)
  have le: "int (Suc m + n) \<le> limit_of_key rl key" using Suc.prems(2) by simp
  from Suc.IH [OF rec le] first show ?case
    by (simp add: rate_limit_all_Cons)
qed

section \<open>The claims\<close>

text \<open>
  Claim C1. After every sequence of calls, served from a new middleware or from an empty
  \<open>request_counts\<close>, the record of every key holds at most as many timestamps in any
  interval \<open>(t - W, t]\<close> as the cap of the key, the cap being positive: for \<open>dispatch\<close>
  the cap is \<open>requests_per_minute\<close> and \<open>W\<close> is 60, for \<open>rate_limit\<close> the cap is
  \<open>RATE_LIMIT\<close> for an address key and its double for a user key, and \<open>W\<close> is
  \<open>RATE_WINDOW\<close>. The calls are arbitrary: any requests, any keys, clock readings in any
  order. Moreover, when the clock readings of the calls for the key are non-decreasing, the
  same bound holds for all the admissions of the key, those purged since included: no
  interval \<open>(t - W, t]\<close> holds the arrival times of more admitted calls than the cap.
\<close>

theorem window_bound:
  "(0 < requests_per_minute (init a ex) \<longrightarrow>
      int (length [x \<leftarrow> getitem (request_counts (snd (dispatch_all (init a ex) calls))) k.
                     t - 60 < x \<and> x \<le> t])
        \<le> requests_per_minute (init a ex))
   \<and> (0 < requests_per_minute (init a ex) \<and> sorted (times_for (init a ex) k calls) \<longrightarrow>
      int (length [x \<leftarrow> admitted_times (init a ex) k calls. t - 60 < x \<and> x \<le> t])
        \<le> requests_per_minute (init a ex))
   \<and> (0 < rl \<longrightarrow>
      int (length [x \<leftarrow> getitem (snd (rate_limit_all rl rw Map.empty rcalls)) k'.
                     t' - real_of_int rw < x \<and> x \<le> t'])
        \<le> limit_of_key rl k')
   \<and> (0 < rl \<and> sorted (rl_times_for k' rcalls) \<longrightarrow>
      int (length [x \<leftarrow> rl_admitted_times rl rw Map.empty k' rcalls.
                     t' - real_of_int rw < x \<and> x \<le> t'])
        \<le> limit_of_key rl k')"
proof (intro conjI impI)
  let ?L = "requests_per_minute (init a ex)"
  assume pos: "0 < ?L"
  have "int (length (window_run ?L 60 [] (times_for (init a ex) k calls))) \<le> max 0 ?L"
    by (rule window_run_length) simp
  with pos have "int (length (getitem (request_counts (snd (dispatch_all (init a ex) calls))) k)) \<le> ?L"
    by (simp add: dispatch_all_record)
  then show "int (length [x \<leftarrow> getitem (request_counts (snd (dispatch_all (init a ex) calls))) k.
                     t - 60 < x \<and> x \<le> t]) \<le> ?L"
    by (rule filter_length_int)
next
  let ?L = "requests_per_minute (init a ex)"
  assume h: "0 < ?L \<and> sorted (times_for (init a ex) k calls)"
  then have "sorted (times_for (init a ex) k calls)" by (rule conjunct2)
  from window_history [OF this, where L = ?L and W = 60] h
  have "int (length [x \<leftarrow> window_admitted ?L 60 [] (times_for (init a ex) k calls).
                       t - 60 < x \<and> x \<le> t]) \<le> ?L"
    by blast
  then show "int (length [x \<leftarrow> admitted_times (init a ex) k calls. t - 60 < x \<and> x \<le> t]) \<le> ?L"
    by (simp add: admitted_times_eq)
next
  assume pos: "0 < rl"
  then have lpos: "0 < limit_of_key rl k'" by (simp add: limit_of_key_def)
  have "int (length (window_run (limit_of_key rl k') (real_of_int rw) [] (rl_times_for k' rcalls)))
          \<le> max 0 (limit_of_key rl k')"
    by (rule window_run_length) simp
  with lpos have "int (length (getitem (snd (rate_limit_all rl rw Map.empty rcalls)) k')) \<le> limit_of_key rl k'"
    by (simp add: rate_limit_all_record)
  then show "int (length [x \<leftarrow> getitem (snd (rate_limit_all rl rw Map.empty rcalls)) k'.
                     t' - real_of_int rw < x \<and> x \<le> t']) \<le> limit_of_key rl k'"
    by (rule filter_length_int)
next
  assume h: "0 < rl \<and> sorted (rl_times_for k' rcalls)"
  then have lpos: "0 < limit_of_key rl k'" by (simp add: limit_of_key_def)
  from h have "sorted (rl_times_for k' rcalls)" by (rule conjunct2)
  from window_history [OF this, where L = "limit_of_key rl k'" and W = "real_of_int rw"] lpos
  have "int (length [x \<leftarrow> window_admitted (limit_of_key rl k') (real_of_int rw) []
                            (rl_times_for k' rcalls).
                       t' - real_of_int rw < x \<and> x \<le> t']) \<le> limit_of_key rl k'"
    by blast
  then show "int (length [x \<leftarrow> rl_admitted_times rl rw Map.empty k' rcalls.
                     t' - real_of_int rw < x \<and> x \<le> t']) \<le> limit_of_key rl k'"
    by (simp add: rl_admitted_times_eq)
qed

theorem window_bound_witness:
  "0 < requests_per_minute (init (Some 2) None)
   \<and> sorted (times_for (init (Some 2) None) ''10.0.0.1''
      [(example_request, 1000), (example_request, 1001), (example_request, 1002),
       (example_request, 1060)])
   \<and> (0::int) < 1
   \<and> sorted (rl_times_for ''ip:10.0.0.1''
      [(example_request, None, 1000), (example_request, None, 1001)])
   \<and> getitem (request_counts (snd (dispatch_all (init (Some 2) None)
      [(example_request, 1000), (example_request, 1001), (example_request, 1002),
       (example_request, 1060)]))) ''10.0.0.1''
     = [1001, 1060]
   \<and> times_for (init (Some 2) None) ''10.0.0.1''
      [(example_request, 1000), (example_request, 1001), (example_request, 1002),
       (example_request, 1060)] = [1000, 1001, 1002, 1060]
   \<and> admitted_times (init (Some 2) None) ''10.0.0.1''
      [(example_request, 1000), (example_request, 1001), (example_request, 1002),
       (example_request, 1060)] = [1000, 1001, 1060]
   \<and> int (length [x \<leftarrow> admitted_times (init (Some 2) None) ''10.0.0.1''
      [(example_request, 1000), (example_request, 1001), (example_request, 1002),
       (example_request, 1060)]. 1002 - 60 < x \<and> x \<le> 1002]) \<le> 2
   \<and> getitem (snd (rate_limit_all 1 60 Map.empty
      [(example_request, None, 1000), (example_request, None, 1001)])) ''ip:10.0.0.1'' = [1000]
   \<and> rl_admitted_times 1 60 Map.empty ''ip:10.0.0.1''
      [(example_request, None, 1000), (example_request, None, 1001)] = [1000]
   \<and> int (length [x \<leftarrow> rl_admitted_times 1 60 Map.empty ''ip:10.0.0.1''
      [(example_request, None, 1000), (example_request, None, 1001)].
        1001 - 60 < x \<and> x \<le> 1001]) \<le> 1"
  using window_bound [where a = "Some 2" and ex = None and k = "''10.0.0.1''" and t = 1002
      and calls = "[(example_request, 1000), (example_request, 1001), (example_request, 1002),
                    (example_request, 1060)]"
      and rl = 1 and rw = 60 and k' = "''ip:10.0.0.1''" and t' = 1001
      and rcalls = "[(example_request, None, 1000), (example_request, None, 1001)]"]
  by (simp add: dispatch_all_record admitted_times_eq times_for_def rate_limit_all_record
      rl_admitted_times_eq rl_times_for_def window_check_eval)

text \<open>
  The bound on all admissions needs the ordered clock. With cap 3 and clock readings
  100, 100, 160, 101, 102 every call is admitted (the call at 160 purges both timestamps
  100), and four admissions lie in \<open>(42, 102]\<close>, while the record never holds more than 3.
\<close>

lemma admissions_with_clock_going_back:
  "admitted_times (init (Some 3) None) ''10.0.0.1''
      [(example_request, 100), (example_request, 100), (example_request, 160),
       (example_request, 101), (example_request, 102)] = [100, 100, 160, 101, 102]
   \<and> [x \<leftarrow> [100, 100, 160, 101, 102 :: real]. 102 - 60 < x \<and> x \<le> 102] = [100, 100, 101, 102]
   \<and> getitem (request_counts (snd (dispatch_all (init (Some 3) None)
      [(example_request, 100), (example_request, 100), (example_request, 160),
       (example_request, 101), (example_request, 102)]))) ''10.0.0.1'' = [160, 101, 102]"
  by (simp add: dispatch_all_record admitted_times_eq times_for_def window_check_eval)

text \<open>
  Claim C2. In a state reached by a sequence of calls from a new middleware (from an empty
  \<open>request_counts\<close>), a call that is rejected leaves the record of every key as it was:
  \<open>dispatch\<close> returning the 429 response, \<open>rate_limit\<close> raising.
\<close>

theorem rejected_unchanged:
  "(self = snd (dispatch_all (init a ex) calls) \<and> fst (dispatch self request now) = Return resp
      \<longrightarrow> getitem (request_counts (snd (dispatch self request now))) k
            = getitem (request_counts self) k)
   \<and> (c = snd (rate_limit_all rl rw Map.empty rcalls)
        \<and> fst (rate_limit_with rl rw request' u now' c) = Inl e
      \<longrightarrow> getitem (snd (rate_limit_with rl rw request' u now' c)) k' = getitem c k')"
proof (intro conjI impI)
  assume h: "self = snd (dispatch_all (init a ex) calls) \<and> fst (dispatch self request now) = Return resp"
  let ?L = "requests_per_minute (init a ex)"
  have L: "requests_per_minute self = ?L" using h by simp
  have "int (length (window_run ?L 60 [] (times_for (init a ex) k calls))) \<le> max 0 ?L"
    by (rule window_run_length) simp
  then have len: "int (length (getitem (request_counts self) k)) \<le> max 0 (requests_per_minute self)"
    using h by (simp add: dispatch_all_record)
  show "getitem (request_counts (snd (dispatch self request now))) k = getitem (request_counts self) k"
  proof (cases "client_ip_of request = k")
    case True
    from h have r: "fst (dispatch self request now) = Return resp" by (rule conjunct2)
    have "\<not> fst (window_check (requests_per_minute self) 60 now (getitem (request_counts self) k))"
      using dispatch_Return_iff [OF r] True by simp
    with len have "snd (window_check (requests_per_minute self) 60 now (getitem (request_counts self) k))
                     = getitem (request_counts self) k"
      by (rule window_check_rejected_same)
    then show ?thesis by (simp add: dispatch_record)
  next
    case False
    then show ?thesis by (simp add: dispatch_record)
  qed
next
  assume h: "c = snd (rate_limit_all rl rw Map.empty rcalls)
        \<and> fst (rate_limit_with rl rw request' u now' c) = Inl e"
  have "int (length (window_run (limit_of_key rl k') (real_of_int rw) [] (rl_times_for k' rcalls)))
          \<le> max 0 (limit_of_key rl k')"
    by (rule window_run_length) simp
  then have len: "int (length (getitem c k')) \<le> max 0 (limit_of_key rl k')"
    using h by (simp add: rate_limit_all_record)
  show "getitem (snd (rate_limit_with rl rw request' u now' c)) k' = getitem c k'"
  proof (cases "call_key request' u = Some k'")
    case True
    from h have r: "fst (rate_limit_with rl rw request' u now' c) = Inl e" by (rule conjunct2)
    have "\<not> fst (window_check (limit_of_key rl k') (real_of_int rw) now' (getitem c k'))"
      by (rule rate_limit_with_Inl [OF r True])
    with len have "snd (window_check (limit_of_key rl k') (real_of_int rw) now' (getitem c k'))
                     = getitem c k'"
      by (rule window_check_rejected_same)
    then show ?thesis by (simp add: rate_limit_with_record)
  next
    case False
    then show ?thesis by (simp add: rate_limit_with_record)
  qed
qed

theorem rejected_unchanged_witness:
  "fst (dispatch (snd (dispatch_all (init (Some 1) None) [(example_request, 1000)]))
          example_request 1001)
     = Return (JSONResponse 429 [(''detail'', ''Rate limit exceeded. Try again later.'')]
                 [(''Retry-After'', ''60'')])
   \<and> getitem (request_counts (snd (dispatch_all (init (Some 1) None) [(example_request, 1000)])))
        ''10.0.0.1'' = [1000]
   \<and> getitem (request_counts (snd (dispatch
         (snd (dispatch_all (init (Some 1) None) [(example_request, 1000)]))
          example_request 1001))) ''10.0.0.1'' = [1000]
   \<and> fst (rate_limit_with 1 60 example_request None 1001
            (snd (rate_limit_all 1 60 Map.empty [(example_request, None, 1000)])))
     = Inl (HTTPException 429 ''Rate limit exceeded'' [(''Retry-After'', ''60'')])
   \<and> getitem (snd (rate_limit_all 1 60 Map.empty [(example_request, None, 1000)]))
        ''ip:10.0.0.1'' = [1000]
   \<and> getitem (snd (rate_limit_with 1 60 example_request None 1001
            (snd (rate_limit_all 1 60 Map.empty [(example_request, None, 1000)]))))
        ''ip:10.0.0.1'' = [1000]"
  using rejected_unchanged [where self = "snd (dispatch_all (init (Some 1) None) [(example_request, 1000)])"
      and a = "Some 1" and ex = None and calls = "[(example_request, 1000)]"
      and request = example_request and now = 1001 and k = "''10.0.0.1''"
      and resp = "JSONResponse 429 [(''detail'', ''Rate limit exceeded. Try again later.'')]
                 [(''Retry-After'', ''60'')]"
      and c = "snd (rate_limit_all 1 60 Map.empty [(example_request, None, 1000)])"
      and rl = 1 and rw = 60 and rcalls = "[(example_request, None, 1000)]"
      and request' = example_request and u = None and now' = 1001 and k' = "''ip:10.0.0.1''"
      and e = "HTTPException 429 ''Rate limit exceeded'' [(''Retry-After'', ''60'')]"]
  by (simp add: dispatch_all_record times_for_def rate_limit_all_record rl_times_for_def
      window_check_eval dispatch_outcome dispatch_record rate_limit_with_outcome
      rate_limit_with_record HTTP_429_TOO_MANY_REQUESTS_def)

text \<open>
  Claim C3, as amended. The purge keeps exactly the timestamps strictly greater than
  \<open>now - W\<close>, in their order; a timestamp equal to \<open>now - W\<close> is removed. The call is
  admitted if and only if fewer timestamps than the cap are kept, and then \<open>now\<close> is
  appended to the kept ones; the count compared with the cap is the count after the purge.
\<close>

theorem purge_keeps_newer:
  "(url_path request \<notin> set (exclude_paths self) \<longrightarrow>
      getitem (request_counts (snd (dispatch self request now))) (client_ip_of request)
        = [t \<leftarrow> getitem (request_counts self) (client_ip_of request). t > now - 60]
          @ (if fst (dispatch self request now) = CallNext request then [now] else [])
      \<and> (fst (dispatch self request now) = CallNext request \<longleftrightarrow>
           int (length [t \<leftarrow> getitem (request_counts self) (client_ip_of request). t > now - 60])
             < requests_per_minute self))
   \<and> (key_and_limit rl request' u = Inr (key, cap) \<longrightarrow>
      getitem (snd (rate_limit_with rl rw request' u now' c)) key
        = [t \<leftarrow> getitem c key. t > now' - real_of_int rw]
          @ (if fst (rate_limit_with rl rw request' u now' c) = Inr () then [now'] else [])
      \<and> (fst (rate_limit_with rl rw request' u now' c) = Inr () \<longleftrightarrow>
           int (length [t \<leftarrow> getitem c key. t > now' - real_of_int rw]) < cap))"
proof (intro conjI impI)
  assume ex: "url_path request \<notin> set (exclude_paths self)"
  show adm: "fst (dispatch self request now) = CallNext request \<longleftrightarrow>
           int (length [t \<leftarrow> getitem (request_counts self) (client_ip_of request). t > now - 60])
             < requests_per_minute self"
    using ex by (simp add: dispatch_outcome window_check_fst)
  show "getitem (request_counts (snd (dispatch self request now))) (client_ip_of request)
        = [t \<leftarrow> getitem (request_counts self) (client_ip_of request). t > now - 60]
          @ (if fst (dispatch self request now) = CallNext request then [now] else [])"
    unfolding adm using ex by (simp add: dispatch_record window_check_eval)
next
  assume k: "key_and_limit rl request' u = Inr (key, cap)"
  show adm: "fst (rate_limit_with rl rw request' u now' c) = Inr () \<longleftrightarrow>
           int (length [t \<leftarrow> getitem c key. t > now' - real_of_int rw]) < cap"
    using key_and_limit_Inr [OF k] by (simp add: rate_limit_with_outcome window_check_fst)
  show "getitem (snd (rate_limit_with rl rw request' u now' c)) key
        = [t \<leftarrow> getitem c key. t > now' - real_of_int rw]
          @ (if fst (rate_limit_with rl rw request' u now' c) = Inr () then [now'] else [])"
    unfolding adm using key_and_limit_Inr [OF k]
    by (simp add: rate_limit_with_record window_check_eval)
qed

theorem purge_keeps_newer_witness:
  "url_path example_request \<notin> set [''/health'']
   \<and> key_and_limit 1 example_request (Some example_user) = Inr (''user:1'', 2)
   \<and> getitem (request_counts (snd (dispatch
       \<lparr>requests_per_minute = 5, exclude_paths = [''/health''],
        request_counts = [''10.0.0.1'' \<mapsto> [0, 1, 30]]\<rparr> example_request 61))) ''10.0.0.1''
     = [30, 61]
   \<and> fst (dispatch \<lparr>requests_per_minute = 5, exclude_paths = [''/health''],
        request_counts = [''10.0.0.1'' \<mapsto> [0, 1, 30]]\<rparr> example_request 61)
     = CallNext example_request
   \<and> getitem (snd (rate_limit_with 1 60 example_request (Some example_user) 61
                     [''user:1'' \<mapsto> [0, 1, 30]])) ''user:1'' = [30, 61]
   \<and> fst (rate_limit_with 1 60 example_request (Some example_user) 61
                     [''user:1'' \<mapsto> [0, 1, 30]]) = Inr ()"
proof -
  have k: "key_and_limit 1 example_request (Some example_user) = Inr (''user:1'', 2)"
    by (simp add: key_and_limit_def)
  show ?thesis
    using purge_keeps_newer [where self = "\<lparr>requests_per_minute = 5, exclude_paths = [''/health''],
        request_counts = [''10.0.0.1'' \<mapsto> [0, 1, 30]]\<rparr>" and request = example_request
        and now = 61 and rl = 1 and rw = 60 and request' = example_request
        and u = "Some example_user" and key = "''user:1''" and cap = 2 and now' = 61
        and c = "[''user:1'' \<mapsto> [0, 1, 30]]"] k
    by simp
qed

text \<open>
  Claim C3 as stated fails at a timestamp that is exactly one window old: the record
  \<open>[1000]\<close> was stored by a call at time 1000; at time 1060 the timestamp 1000 is not
  older than \<open>1060 - 60\<close>, yet the call at time 1060 removes it.
\<close>

theorem purge_boundary_counterexample:
  "getitem (request_counts (snd (dispatch_all (init (Some 5) None) [(example_request, 1000)])))
       ''10.0.0.1'' = [1000]
   \<and> (1000::real) \<ge> 1060 - 60
   \<and> 1000 \<notin> set (getitem (request_counts (snd (dispatch
         (snd (dispatch_all (init (Some 5) None) [(example_request, 1000)])) example_request 1060)))
         ''10.0.0.1'')
   \<and> getitem (snd (rate_limit_all 100 60 Map.empty [(example_request, None, 1000)]))
       ''ip:10.0.0.1'' = [1000]
   \<and> 1000 \<notin> set (getitem (snd (rate_limit_with 100 60 example_request None 1060
         (snd (rate_limit_all 100 60 Map.empty [(example_request, None, 1000)])))) ''ip:10.0.0.1'')"
  by (simp add: dispatch_all_record times_for_def rate_limit_all_record rl_times_for_def
      window_check_eval dispatch_record rate_limit_with_record)

text \<open>
  Claim C4, as amended. Neither function checks its configuration, and no call ends in a
  configuration error. \<open>__init__\<close> stores \<open>requests_per_minute\<close> as given. With a cap of
  0 or less every checked call is rejected with status 429: \<open>dispatch\<close> returns the 429
  response for every path that is not excluded, \<open>rate_limit\<close> raises the 429
  \<open>HTTPException\<close> whenever the call has a key. The window of \<open>dispatch\<close> is the constant
  60. With \<open>RATE_WINDOW\<close> of 0 or less and \<open>RATE_LIMIT\<close> of at least 1, \<open>rate_limit\<close> admits
  every call whose key has no stored timestamp later than \<open>now\<close>.
\<close>

theorem nonpositive_configuration:
  "requests_per_minute (init (Some L) ex) = L
   \<and> (requests_per_minute self \<le> 0 \<and> url_path request \<notin> set (exclude_paths self) \<longrightarrow>
        fst (dispatch self request now)
          = Return (JSONResponse 429 [(''detail'', ''Rate limit exceeded. Try again later.'')]
                      [(''Retry-After'', ''60'')]))
   \<and> (rl \<le> 0 \<and> key_and_limit rl request' u = Inr (key, cap) \<longrightarrow>
        fst (rate_limit_with rl rw request' u now' c)
          = Inl (HTTPException 429 ''Rate limit exceeded'' [(''Retry-After'', str_int rw)]))
   \<and> (rw \<le> 0 \<and> 1 \<le> rl \<and> key_and_limit rl request' u = Inr (key, cap)
        \<and> (\<forall>t \<in> set (getitem c key). t \<le> now') \<longrightarrow>
        fst (rate_limit_with rl rw request' u now' c) = Inr ())"
proof (intro conjI impI)
  show "requests_per_minute (init (Some L) ex) = L" by simp
next
  assume h: "requests_per_minute self \<le> 0 \<and> url_path request \<notin> set (exclude_paths self)"
  then have "\<not> fst (window_check (requests_per_minute self) 60 now
                      (getitem (request_counts self) (client_ip_of request)))"
    by (simp add: window_check_fst)
  with h show "fst (dispatch self request now)
          = Return (JSONResponse 429 [(''detail'', ''Rate limit exceeded. Try again later.'')]
                      [(''Retry-After'', ''60'')])"
    by (simp add: dispatch_outcome HTTP_429_TOO_MANY_REQUESTS_def)
next
  assume h: "rl \<le> 0 \<and> key_and_limit rl request' u = Inr (key, cap)"
  then have k: "key_and_limit rl request' u = Inr (key, cap)" by (rule conjunct2)
  from h have "cap \<le> 0" by (auto simp: key_and_limit_cases)
  then have "\<not> fst (window_check (limit_of_key rl key) (real_of_int rw) now' (getitem c key))"
    using key_and_limit_Inr(1) [OF k] by (simp add: window_check_fst)
  then show "fst (rate_limit_with rl rw request' u now' c)
          = Inl (HTTPException 429 ''Rate limit exceeded'' [(''Retry-After'', str_int rw)])"
    using key_and_limit_Inr(2) [OF k]
    by (simp add: rate_limit_with_outcome HTTP_429_TOO_MANY_REQUESTS_def)
next
  assume h: "rw \<le> 0 \<and> 1 \<le> rl \<and> key_and_limit rl request' u = Inr (key, cap)
        \<and> (\<forall>t \<in> set (getitem c key). t \<le> now')"
  then have k: "key_and_limit rl request' u = Inr (key, cap)" by blast
  from h have "1 \<le> cap" by (auto simp: key_and_limit_cases)
  then have cap: "1 \<le> limit_of_key rl key" using key_and_limit_Inr(1) [OF k] by simp
  from h have "\<forall>t \<in> set (getitem c key). t \<le> now' - real_of_int rw" by auto
  then have "window_check (limit_of_key rl key) (real_of_int rw) now' (getitem c key) = (True, [now'])"
    using cap by (rule window_check_expired)
  then show "fst (rate_limit_with rl rw request' u now' c) = Inr ()"
    using key_and_limit_Inr(2) [OF k] by (simp add: rate_limit_with_outcome)
qed

theorem nonpositive_configuration_witness:
  "url_path example_request \<notin> set (exclude_paths (init (Some (- 3)) None))
   \<and> key_and_limit (- 3) example_request None = Inr (''ip:10.0.0.1'', - 3)
   \<and> key_and_limit 1 example_request None = Inr (''ip:10.0.0.1'', 1)
   \<and> getitem [''ip:10.0.0.1'' \<mapsto> [1000, 1000 :: real]] ''ip:10.0.0.1'' = [1000, 1000]
   \<and> (1000::real) \<le> 1000
   \<and> requests_per_minute (init (Some (- 3)) None) = - 3
   \<and> fst (dispatch (init (Some (- 3)) None) example_request 1000)
       = Return (JSONResponse 429 [(''detail'', ''Rate limit exceeded. Try again later.'')]
                   [(''Retry-After'', ''60'')])
   \<and> fst (rate_limit_with (- 3) 60 example_request None 1000 Map.empty)
       = Inl (HTTPException 429 ''Rate limit exceeded'' [(''Retry-After'', ''60'')])
   \<and> fst (rate_limit_with 1 0 example_request None 1000 [''ip:10.0.0.1'' \<mapsto> [1000, 1000]])
       = Inr ()"
proof -
  have k: "key_and_limit (- 3) example_request None = Inr (''ip:10.0.0.1'', - 3)"
          "key_and_limit 1 example_request None = Inr (''ip:10.0.0.1'', 1)"
    by (simp_all add: key_and_limit_def)
  show ?thesis
    using nonpositive_configuration [where L = "- 3" and ex = None
        and self = "init (Some (- 3)) None" and request = example_request and now = 1000
        and rl = "- 3" and rw = 60 and request' = example_request and u = None
        and key = "''ip:10.0.0.1''" and cap = "- 3" and now' = 1000 and c = Map.empty]
      nonpositive_configuration [where L = "- 3" and ex = None
        and self = "init (Some (- 3)) None" and request = example_request and now = 1000
        and rl = 1 and rw = 0 and request' = example_request and u = None
        and key = "''ip:10.0.0.1''" and cap = 1 and now' = 1000
        and c = "[''ip:10.0.0.1'' \<mapsto> [1000, 1000]]"] k
    by simp
qed

text \<open>
  Claim C4 as stated fails: a middleware built with \<open>requests_per_minute = 0\<close> is built
  without an error and answers its first request with the ordinary 429 response, and
  \<open>rate_limit\<close> with a cap of 0 raises the ordinary 429 exception. Both run with zero
  throughput.
\<close>

theorem zero_limit_counterexample:
  "init (Some 0) None
     = \<lparr>requests_per_minute = 0, exclude_paths = [''/health'', ''/docs'', ''/openapi.json''],
        request_counts = Map.empty\<rparr>
   \<and> dispatch (init (Some 0) None) example_request 1000
     = (Return (JSONResponse 429 [(''detail'', ''Rate limit exceeded. Try again later.'')]
                  [(''Retry-After'', ''60'')]),
        \<lparr>requests_per_minute = 0, exclude_paths = [''/health'', ''/docs'', ''/openapi.json''],
         request_counts = [''10.0.0.1'' \<mapsto> []]\<rparr>)
   \<and> rate_limit_with 0 60 example_request None 1000 Map.empty
     = (Inl (HTTPException 429 ''Rate limit exceeded'' [(''Retry-After'', ''60'')]),
        [''ip:10.0.0.1'' \<mapsto> []])"
  by (simp add: init_def dispatch_def rate_limit_with_def key_and_limit_def Let_def
      HTTP_429_TOO_MANY_REQUESTS_def)

text \<open>
  Claim C5. Right after a checked call at time \<open>now\<close>, every timestamp in the record of
  the call's key is greater than \<open>now - W\<close> (for \<open>rate_limit\<close>, \<open>W\<close> being positive).
  After any sequence of calls from a new middleware (an empty \<open>request_counts\<close>) the
  record of a key lists timestamps in the order of the calls that stored them: it is a
  subsequence of the clock readings of the calls for that key. So it is in chronological
  order whenever those clock readings are non-decreasing.
\<close>

theorem record_recent_and_ordered:
  "(url_path request \<notin> set (exclude_paths self) \<longrightarrow>
      (\<forall>t \<in> set (getitem (request_counts (snd (dispatch self request now))) (client_ip_of request)).
         t > now - 60))
   \<and> subseq (getitem (request_counts (snd (dispatch_all (init a ex) calls))) k)
        (times_for (init a ex) k calls)
   \<and> (sorted (times_for (init a ex) k calls) \<longrightarrow>
        sorted (getitem (request_counts (snd (dispatch_all (init a ex) calls))) k))
   \<and> (0 < rw \<and> key_and_limit rl request' u = Inr (key, cap) \<longrightarrow>
      (\<forall>t \<in> set (getitem (snd (rate_limit_with rl rw request' u now' c)) key).
         t > now' - real_of_int rw))
   \<and> subseq (getitem (snd (rate_limit_all rl rw Map.empty rcalls)) k') (rl_times_for k' rcalls)
   \<and> (sorted (rl_times_for k' rcalls) \<longrightarrow>
        sorted (getitem (snd (rate_limit_all rl rw Map.empty rcalls)) k'))"
proof (intro conjI impI)
  assume "url_path request \<notin> set (exclude_paths self)"
  then show "\<forall>t \<in> set (getitem (request_counts (snd (dispatch self request now))) (client_ip_of request)).
         t > now - 60"
    using window_check_recent [of 60 "requests_per_minute self" now
        "getitem (request_counts self) (client_ip_of request)"]
    by (simp add: dispatch_record)
next
  show d: "subseq (getitem (request_counts (snd (dispatch_all (init a ex) calls))) k)
        (times_for (init a ex) k calls)"
    using window_run_subseq [of "requests_per_minute (init a ex)" 60 "[]" "times_for (init a ex) k calls"]
    by (simp add: dispatch_all_record)
  assume "sorted (times_for (init a ex) k calls)"
  with d show "sorted (getitem (request_counts (snd (dispatch_all (init a ex) calls))) k)"
    by (rule subseq_sorted)
next
  assume h: "0 < rw \<and> key_and_limit rl request' u = Inr (key, cap)"
  then have k: "key_and_limit rl request' u = Inr (key, cap)" by (rule conjunct2)
  from h have "0 < real_of_int rw" by simp
  then show "\<forall>t \<in> set (getitem (snd (rate_limit_with rl rw request' u now' c)) key).
         t > now' - real_of_int rw"
    using window_check_recent [of "real_of_int rw" "limit_of_key rl key" now' "getitem c key"]
      key_and_limit_Inr(2) [OF k]
    by (simp add: rate_limit_with_record)
next
  show r: "subseq (getitem (snd (rate_limit_all rl rw Map.empty rcalls)) k') (rl_times_for k' rcalls)"
    using window_run_subseq [of "limit_of_key rl k'" "real_of_int rw" "[]" "rl_times_for k' rcalls"]
    by (simp add: rate_limit_all_record)
  assume "sorted (rl_times_for k' rcalls)"
  with r show "sorted (getitem (snd (rate_limit_all rl rw Map.empty rcalls)) k')"
    by (rule subseq_sorted)
qed

theorem record_recent_and_ordered_witness:
  "url_path example_request \<notin> set (exclude_paths (init (Some 5) None))
   \<and> key_and_limit 100 example_request None = Inr (''ip:10.0.0.1'', 100)
   \<and> sorted (times_for (init (Some 5) None) ''10.0.0.1''
        [(example_request, 1000), (example_request, 1030), (example_request, 1070)])
   \<and> sorted (rl_times_for ''ip:10.0.0.1''
        [(example_request, None, 1000), (example_request, None, 1030), (example_request, None, 1070)])
   \<and> getitem (request_counts (snd (dispatch (init (Some 5) None) example_request 1070)))
      ''10.0.0.1'' = [1070]
   \<and> times_for (init (Some 5) None) ''10.0.0.1''
        [(example_request, 1000), (example_request, 1030), (example_request, 1070)]
      = [1000, 1030, 1070]
   \<and> getitem (request_counts (snd (dispatch_all (init (Some 5) None)
        [(example_request, 1000), (example_request, 1030), (example_request, 1070)])))
      ''10.0.0.1'' = [1030, 1070]
   \<and> sorted [1030, 1070 :: real]
   \<and> getitem (snd (rate_limit_with 100 60 example_request None 1070 Map.empty))
      ''ip:10.0.0.1'' = [1070]
   \<and> rl_times_for ''ip:10.0.0.1''
        [(example_request, None, 1000), (example_request, None, 1030), (example_request, None, 1070)]
      = [1000, 1030, 1070]
   \<and> getitem (snd (rate_limit_all 100 60 Map.empty
        [(example_request, None, 1000), (example_request, None, 1030), (example_request, None, 1070)]))
      ''ip:10.0.0.1'' = [1030, 1070]"
proof -
  have k: "key_and_limit 100 example_request None = Inr (''ip:10.0.0.1'', 100)"
    by (simp add: key_and_limit_def)
  show ?thesis
    using record_recent_and_ordered [where self = "init (Some 5) None" and request = example_request
        and now = 1070 and a = "Some 5" and ex = None and k = "''10.0.0.1''"
        and calls = "[(example_request, 1000), (example_request, 1030), (example_request, 1070)]"
        and rl = 100 and rw = 60 and request' = example_request and u = None
        and key = "''ip:10.0.0.1''" and cap = 100 and now' = 1070 and c = Map.empty
        and k' = "''ip:10.0.0.1''"
        and rcalls = "[(example_request, None, 1000), (example_request, None, 1030),
                       (example_request, None, 1070)]"] k
    by (simp add: dispatch_all_record times_for_def rate_limit_all_record rl_times_for_def
        window_check_eval dispatch_record rate_limit_with_record)
qed

text \<open>
  Claim C6. The record of every key starts empty: a new middleware holds no timestamps.
  For a key without recorded timestamps and a cap of at least 1, the call is admitted and
  the record of the key becomes the single arrival time. For \<open>dispatch\<close> the cap is
  \<open>requests_per_minute\<close> and the call is one whose path is not excluded; for
  \<open>rate_limit\<close> the cap is \<open>RATE_LIMIT\<close> or its double, and the call is one for which
  a key exists.
\<close>

theorem first_call_admits:
  "getitem (request_counts (init a ex)) k = []
   \<and> (1 \<le> requests_per_minute self \<and> url_path request \<notin> set (exclude_paths self)
        \<and> getitem (request_counts self) (client_ip_of request) = []
      \<longrightarrow> fst (dispatch self request now) = CallNext request
          \<and> getitem (request_counts (snd (dispatch self request now))) (client_ip_of request) = [now])
   \<and> (1 \<le> rl \<and> key_and_limit rl request u = Inr (key, cap) \<and> getitem c key = []
      \<longrightarrow> rate_limit_with rl rw request u now c = (Inr (), c(key \<mapsto> [now])))"
proof (intro conjI impI)
  show "getitem (request_counts (init a ex)) k = []" by simp
next
  assume h: "1 \<le> requests_per_minute self \<and> url_path request \<notin> set (exclude_paths self)
        \<and> getitem (request_counts self) (client_ip_of request) = []"
  then show "fst (dispatch self request now) = CallNext request"
    by (simp add: dispatch_outcome window_check_fst)
  from h show "getitem (request_counts (snd (dispatch self request now))) (client_ip_of request) = [now]"
    by (simp add: dispatch_record window_check_def)
next
  assume h: "1 \<le> rl \<and> key_and_limit rl request u = Inr (key, cap) \<and> getitem c key = []"
  then have "cap = rl * 2 \<or> cap = rl" by (auto simp: key_and_limit_cases)
  with h have "1 \<le> cap" by auto
  with h show "rate_limit_with rl rw request u now c = (Inr (), c(key \<mapsto> [now]))"
    by (simp add: rate_limit_with_def Let_def)
qed

theorem first_call_admits_witness:
  "1 \<le> requests_per_minute (init (Some 1) None)
   \<and> url_path example_request \<notin> set (exclude_paths (init (Some 1) None))
   \<and> getitem (request_counts (init (Some 1) None)) (client_ip_of example_request) = []
   \<and> key_and_limit 1 example_request None = Inr (''ip:10.0.0.1'', 1)
   \<and> fst (dispatch (init (Some 1) None) example_request 1000) = CallNext example_request
   \<and> getitem (request_counts (snd (dispatch (init (Some 1) None) example_request 1000))) ''10.0.0.1'' = [1000]
   \<and> rate_limit_with 1 60 example_request None 1000 Map.empty = (Inr (), [''ip:10.0.0.1'' \<mapsto> [1000]])"
proof -
  have k: "key_and_limit 1 example_request None = Inr (''ip:10.0.0.1'', 1)"
    by (simp add: key_and_limit_def)
  show ?thesis
    using first_call_admits [where self = "init (Some 1) None" and request = example_request
        and now = 1000 and rl = 1 and rw = 60 and u = None and key = "''ip:10.0.0.1''"
        and cap = 1 and c = Map.empty] k
    by simp
qed

text \<open>
  Claim C7. For a key that holds no timestamp inside the window at time \<open>t\<close> (a fresh key,
  or one whose timestamps have all expired) and a positive cap \<open>L\<close>, \<open>L\<close> calls in
  succession at the instant \<open>t\<close> are all admitted and one more call at \<open>t\<close> is rejected.
  For \<open>rate_limit\<close> the window \<open>RATE_WINDOW\<close> is positive.
\<close>

theorem same_instant_burst:
  "(0 < requests_per_minute self \<and> url_path request \<notin> set (exclude_paths self)
      \<and> [x \<leftarrow> getitem (request_counts self) (client_ip_of request). x > t - 60] = []
    \<longrightarrow> fst (dispatch_all self (replicate (nat (requests_per_minute self)) (request, t)))
          = replicate (nat (requests_per_minute self)) (CallNext request)
        \<and> fst (dispatch (snd (dispatch_all self
                   (replicate (nat (requests_per_minute self)) (request, t)))) request t)
          = Return (JSONResponse 429 [(''detail'', ''Rate limit exceeded. Try again later.'')]
                      [(''Retry-After'', ''60'')]))
   \<and> (0 < cap \<and> 0 < rw \<and> key_and_limit rl request' u = Inr (key, cap)
      \<and> [x \<leftarrow> getitem c key. x > t' - real_of_int rw] = []
    \<longrightarrow> fst (rate_limit_all rl rw c (replicate (nat cap) (request', u, t')))
          = replicate (nat cap) (Inr ())
        \<and> fst (rate_limit_with rl rw request' u t'
                 (snd (rate_limit_all rl rw c (replicate (nat cap) (request', u, t')))))
          = Inl (HTTPException 429 ''Rate limit exceeded'' [(''Retry-After'', str_int rw)]))"
proof (intro conjI impI)
  let ?L = "requests_per_minute self"
  let ?s = "snd (dispatch_all self (replicate (nat ?L) (request, t)))"
  assume h: "0 < ?L \<and> url_path request \<notin> set (exclude_paths self)
      \<and> [x \<leftarrow> getitem (request_counts self) (client_ip_of request). x > t - 60] = []"
  then have ex: "url_path request \<notin> set (exclude_paths self)" by blast
  from h have e: "[x \<leftarrow> getitem (request_counts self) (client_ip_of request). x > t - 60]
                    = replicate 0 t" by simp
  from h have le: "int (0 + nat ?L) \<le> ?L" by simp
  note b = dispatch_burst [OF ex e le]
  from b show "fst (dispatch_all self (replicate (nat ?L) (request, t)))
          = replicate (nat ?L) (CallNext request)" by (rule conjunct1)
  from b have "[x \<leftarrow> getitem (request_counts ?s) (client_ip_of request). x > t - 60]
                = replicate (nat ?L) t" by simp
  then have "\<not> fst (window_check ?L 60 t (getitem (request_counts ?s) (client_ip_of request)))"
    using h by (simp add: window_check_fst)
  then show "fst (dispatch ?s request t)
          = Return (JSONResponse 429 [(''detail'', ''Rate limit exceeded. Try again later.'')]
                      [(''Retry-After'', ''60'')])"
    using ex by (simp add: dispatch_outcome HTTP_429_TOO_MANY_REQUESTS_def)
next
  let ?c = "snd (rate_limit_all rl rw c (replicate (nat cap) (request', u, t')))"
  assume h: "0 < cap \<and> 0 < rw \<and> key_and_limit rl request' u = Inr (key, cap)
      \<and> [x \<leftarrow> getitem c key. x > t' - real_of_int rw] = []"
  then have k: "key_and_limit rl request' u = Inr (key, cap)" by blast
  have cap: "cap = limit_of_key rl key" and ck: "call_key request' u = Some key"
    using key_and_limit_Inr [OF k] by simp_all
  from h have w: "0 < rw" by blast
  from h have e: "[x \<leftarrow> getitem c key. x > t' - real_of_int rw] = replicate 0 t'" by simp
  from h cap have le: "int (0 + nat cap) \<le> limit_of_key rl key" by simp
  note b = rate_limit_burst [OF ck w e le]
  from b show "fst (rate_limit_all rl rw c (replicate (nat cap) (request', u, t')))
          = replicate (nat cap) (Inr ())" by (rule conjunct1)
  from b have "[x \<leftarrow> getitem ?c key. x > t' - real_of_int rw] = replicate (nat cap) t'" by simp
  then have "\<not> fst (window_check (limit_of_key rl key) (real_of_int rw) t' (getitem ?c key))"
    using h cap by (simp add: window_check_fst)
  then show "fst (rate_limit_with rl rw request' u t' ?c)
          = Inl (HTTPException 429 ''Rate limit exceeded'' [(''Retry-After'', str_int rw)])"
    using ck by (simp add: rate_limit_with_outcome HTTP_429_TOO_MANY_REQUESTS_def)
qed

theorem same_instant_burst_witness:
  "0 < requests_per_minute (init (Some 2) None)
   \<and> url_path example_request \<notin> set (exclude_paths (init (Some 2) None))
   \<and> [x \<leftarrow> getitem (request_counts (init (Some 2) None)) (client_ip_of example_request).
         x > 1000 - 60] = []
   \<and> key_and_limit 1 example_request (Some example_user) = Inr (''user:1'', 2)
   \<and> nat (requests_per_minute (init (Some 2) None)) = 2
   \<and> fst (dispatch_all (init (Some 2) None) [(example_request, 1000), (example_request, 1000)])
     = [CallNext example_request, CallNext example_request]
   \<and> fst (dispatch (snd (dispatch_all (init (Some 2) None)
             [(example_request, 1000), (example_request, 1000)])) example_request 1000)
     = Return (JSONResponse 429 [(''detail'', ''Rate limit exceeded. Try again later.'')]
                 [(''Retry-After'', ''60'')])
   \<and> fst (rate_limit_all 1 60 Map.empty
             [(example_request, Some example_user, 1000), (example_request, Some example_user, 1000)])
     = [Inr (), Inr ()]
   \<and> fst (rate_limit_with 1 60 example_request (Some example_user) 1000
            (snd (rate_limit_all 1 60 Map.empty
               [(example_request, Some example_user, 1000), (example_request, Some example_user, 1000)])))
     = Inl (HTTPException 429 ''Rate limit exceeded'' [(''Retry-After'', ''60'')])"
proof -
  have k: "key_and_limit 1 example_request (Some example_user) = Inr (''user:1'', 2)"
    by (simp add: key_and_limit_def)
  show ?thesis
    using same_instant_burst [where self = "init (Some 2) None" and request = example_request
        and t = 1000 and rl = 1 and rw = 60 and request' = example_request
        and u = "Some example_user" and key = "''user:1''" and cap = 2 and t' = 1000
        and c = Map.empty] k
    by (simp add: replicate_2)
qed

text \<open>
  Claim C8. A key at capacity (as many recorded timestamps as the cap, which is at least
  1), none of them later than \<open>t0\<close>, is admitted again by the call that arrives exactly one
  window after \<open>t0\<close>: all its timestamps are purged, and the record becomes the new arrival
  time alone. The case of the claim is the record that holds \<open>t0\<close> as many times as the cap.
\<close>

theorem capacity_freed_after_window:
  "(1 \<le> requests_per_minute self \<and> url_path request \<notin> set (exclude_paths self)
      \<and> int (length (getitem (request_counts self) (client_ip_of request))) = requests_per_minute self
      \<and> (\<forall>x \<in> set (getitem (request_counts self) (client_ip_of request)). x \<le> t0)
    \<longrightarrow> fst (dispatch self request (t0 + 60)) = CallNext request
        \<and> getitem (request_counts (snd (dispatch self request (t0 + 60)))) (client_ip_of request)
            = [t0 + 60])
   \<and> (1 \<le> cap \<and> key_and_limit rl request' u = Inr (key, cap)
      \<and> int (length (getitem c key)) = cap \<and> (\<forall>x \<in> set (getitem c key). x \<le> t1)
    \<longrightarrow> rate_limit_with rl rw request' u (t1 + real_of_int rw) c
          = (Inr (), c(key \<mapsto> [t1 + real_of_int rw])))"
proof (intro conjI impI)
  let ?ts = "getitem (request_counts self) (client_ip_of request)"
  assume h: "1 \<le> requests_per_minute self \<and> url_path request \<notin> set (exclude_paths self)
      \<and> int (length ?ts) = requests_per_minute self \<and> (\<forall>x \<in> set ?ts. x \<le> t0)"
  then have "\<forall>x \<in> set ?ts. x \<le> (t0 + 60) - 60" by simp
  moreover from h have "1 \<le> requests_per_minute self" by blast
  ultimately have w: "window_check (requests_per_minute self) 60 (t0 + 60) ?ts = (True, [t0 + 60])"
    by (rule window_check_expired)
  from h have ex: "url_path request \<notin> set (exclude_paths self)" by blast
  show "fst (dispatch self request (t0 + 60)) = CallNext request"
    using ex w by (simp add: dispatch_outcome)
  show "getitem (request_counts (snd (dispatch self request (t0 + 60)))) (client_ip_of request)
            = [t0 + 60]"
    using ex w by (simp add: dispatch_record)
next
  assume h: "1 \<le> cap \<and> key_and_limit rl request' u = Inr (key, cap)
      \<and> int (length (getitem c key)) = cap \<and> (\<forall>x \<in> set (getitem c key). x \<le> t1)"
  then have k: "key_and_limit rl request' u = Inr (key, cap)" by blast
  from h have "\<forall>x \<in> set (getitem c key). x \<le> (t1 + real_of_int rw) - real_of_int rw" by simp
  then have e: "[t \<leftarrow> getitem c key. t > t1 + real_of_int rw - real_of_int rw] = []"
    by (auto simp: filter_empty_conv)
  from h have "1 \<le> cap" by blast
  with e k show "rate_limit_with rl rw request' u (t1 + real_of_int rw) c
          = (Inr (), c(key \<mapsto> [t1 + real_of_int rw]))"
    by (simp add: rate_limit_with_def Let_def)
qed

theorem capacity_freed_after_window_witness:
  "url_path example_request \<notin> set [''/health'']
   \<and> int (length (getitem [''10.0.0.1'' \<mapsto> [1000, 1000 :: real]] (client_ip_of example_request))) = 2
   \<and> getitem [''10.0.0.1'' \<mapsto> [1000, 1000 :: real]] (client_ip_of example_request)
        = [1000, 1000]
   \<and> (1000::real) \<le> 1000
   \<and> key_and_limit 2 example_request None = Inr (''ip:10.0.0.1'', 2)
   \<and> fst (dispatch \<lparr>requests_per_minute = 2, exclude_paths = [''/health''],
                  request_counts = [''10.0.0.1'' \<mapsto> [1000, 1000]]\<rparr> example_request 1000)
     = Return (JSONResponse 429 [(''detail'', ''Rate limit exceeded. Try again later.'')]
                 [(''Retry-After'', ''60'')])
   \<and> fst (dispatch \<lparr>requests_per_minute = 2, exclude_paths = [''/health''],
                  request_counts = [''10.0.0.1'' \<mapsto> [1000, 1000]]\<rparr> example_request 1060)
     = CallNext example_request
   \<and> getitem (request_counts (snd (dispatch \<lparr>requests_per_minute = 2, exclude_paths = [''/health''],
                  request_counts = [''10.0.0.1'' \<mapsto> [1000, 1000]]\<rparr> example_request 1060)))
        ''10.0.0.1'' = [1060]
   \<and> rate_limit_with 2 60 example_request None 1060 [''ip:10.0.0.1'' \<mapsto> [1000, 1000]]
     = (Inr (), [''ip:10.0.0.1'' \<mapsto> [1060]])"
proof -
  have k: "key_and_limit 2 example_request None = Inr (''ip:10.0.0.1'', 2)"
    by (simp add: key_and_limit_def)
  show ?thesis
    using capacity_freed_after_window [where self = "\<lparr>requests_per_minute = 2,
          exclude_paths = [''/health''], request_counts = [''10.0.0.1'' \<mapsto> [1000, 1000]]\<rparr>"
        and request = example_request and ?t0.0 = 1000 and rl = 2 and rw = 60
        and request' = example_request and u = None and key = "''ip:10.0.0.1''" and cap = 2
        and ?t1.0 = 1000 and c = "[''ip:10.0.0.1'' \<mapsto> [1000, 1000]]"] k
    by (simp add: dispatch_outcome window_check_eval HTTP_429_TOO_MANY_REQUESTS_def)
qed

text \<open>
  What \<open>rate_limit\<close> does when the call has a key. A request of an authenticated user
  has the key \<open>user:\<close> followed by the user's id and the cap twice \<open>RATE_LIMIT\<close>; a
  request without a user that carries a client address has the key \<open>ip:\<close> followed by
  that address and the cap \<open>RATE_LIMIT\<close>. A user key is never an address key. The call is
  counted under its key: it is admitted if and only if the key holds fewer timestamps in
  the window than the cap, the record of the key becomes the timestamps kept by the purge
  followed, when admitted, by the arrival time, and the record of no other key changes.
\<close>

lemma key_and_cap_by_authentication:
  "key_and_limit RATE_LIMIT request (Some usr)
     = Inr (''user:'' @ str_int (user_id usr), 2 * RATE_LIMIT)
   \<and> (client request = Some a \<longrightarrow>
        key_and_limit RATE_LIMIT request None = Inr (''ip:'' @ host a, RATE_LIMIT))
   \<and> ''user:'' @ str_int (user_id usr) \<noteq> ''ip:'' @ h
   \<and> (key_and_limit RATE_LIMIT request u = Inr (key, cap) \<longrightarrow>
        (fst (rate_limit request u now c) = Inr () \<longleftrightarrow>
           int (length [t \<leftarrow> getitem c key. t > now - 60]) < cap)
        \<and> getitem (snd (rate_limit request u now c)) key
            = [t \<leftarrow> getitem c key. t > now - 60]
              @ (if fst (rate_limit request u now c) = Inr () then [now] else [])
        \<and> (\<forall>k. k \<noteq> key \<longrightarrow> getitem (snd (rate_limit request u now c)) k = getitem c k))"
proof (intro conjI impI allI)
  show "key_and_limit RATE_LIMIT request (Some usr)
     = Inr (''user:'' @ str_int (user_id usr), 2 * RATE_LIMIT)"
    by (simp add: key_and_limit_def)
  show "''user:'' @ str_int (user_id usr) \<noteq> ''ip:'' @ h" by simp
next
  assume "client request = Some a"
  then show "key_and_limit RATE_LIMIT request None = Inr (''ip:'' @ host a, RATE_LIMIT)"
    by (simp add: key_and_limit_def)
next
  assume k: "key_and_limit RATE_LIMIT request u = Inr (key, cap)"
  show adm: "fst (rate_limit request u now c) = Inr () \<longleftrightarrow>
           int (length [t \<leftarrow> getitem c key. t > now - 60]) < cap"
    using key_and_limit_Inr [OF k]
    by (simp add: rate_limit_def rate_limit_with_outcome window_check_fst RATE_WINDOW_def)
  show "getitem (snd (rate_limit request u now c)) key
            = [t \<leftarrow> getitem c key. t > now - 60]
              @ (if fst (rate_limit request u now c) = Inr () then [now] else [])"
    unfolding adm using key_and_limit_Inr [OF k]
    by (simp add: rate_limit_def rate_limit_with_record window_check_eval RATE_WINDOW_def)
next
  fix k
  assume k: "key_and_limit RATE_LIMIT request u = Inr (key, cap)" and "k \<noteq> key"
  then show "getitem (snd (rate_limit request u now c)) k = getitem c k"
    using key_and_limit_Inr(2) [OF k]
    by (simp add: rate_limit_def rate_limit_with_record)
qed

text \<open>
  Claim C10. The claim gives every request without a user the key \<open>ip:\<close> followed by
  the client's address and the cap \<open>RATE_LIMIT\<close>. \<open>rate_limit\<close> does so only when
  \<open>request.client\<close> is present. For a request without a user whose \<open>request.client\<close> is
  \<open>None\<close> the expression \<open>request.client.host\<close> raises \<open>AttributeError\<close>: the call has no
  key, is compared with no cap and is recorded nowhere, the store staying as it was.
  \<open>dispatch\<close> guards the same expression and counts such a request under \<open>unknown\<close>.
  The same store and clock reading with a client address, and the same request with a
  user, are counted under \<open>ip:10.0.0.1\<close> and under \<open>user:1\<close>.
\<close>

theorem rate_limit_without_client:
  "key_and_limit RATE_LIMIT \<lparr>client = None, url_path = ''/search''\<rparr> None = Inl AttributeError
   \<and> rate_limit \<lparr>client = None, url_path = ''/search''\<rparr> None 1000 Map.empty
       = (Inl AttributeError, Map.empty)
   \<and> rate_limit \<lparr>client = None, url_path = ''/search''\<rparr> None 1000
         [''ip:10.0.0.1'' \<mapsto> [990]]
       = (Inl AttributeError, [''ip:10.0.0.1'' \<mapsto> [990]])
   \<and> dispatch (init (Some 100) None) \<lparr>client = None, url_path = ''/search''\<rparr> 1000
       = (CallNext \<lparr>client = None, url_path = ''/search''\<rparr>,
          \<lparr>requests_per_minute = 100,
           exclude_paths = [''/health'', ''/docs'', ''/openapi.json''],
           request_counts = [''unknown'' \<mapsto> [1000]]\<rparr>)
   \<and> rate_limit example_request None 1000 [''ip:10.0.0.1'' \<mapsto> [990]]
       = (Inr (), [''ip:10.0.0.1'' \<mapsto> [990, 1000]])
   \<and> rate_limit \<lparr>client = None, url_path = ''/search''\<rparr> (Some example_user) 1000
         [''ip:10.0.0.1'' \<mapsto> [990]]
       = (Inr (), [''ip:10.0.0.1'' \<mapsto> [990], ''user:1'' \<mapsto> [1000]])"
  by (simp add: rate_limit_def rate_limit_with_def key_and_limit_def init_def dispatch_def
      client_ip_of_def RATE_LIMIT_def RATE_WINDOW_def Let_def)

end
